theory Spec2Isabelle
  imports Complex_Main
begin

section \<open>Numbers\<close>

text \<open>
  The game computes with JavaScript numbers. Row and column indices, the score and the
  animation frame counter only ever hold integers and are modelled as \<open>int\<close>; pixel
  coordinates, velocities and angles are modelled as \<open>real\<close>, that is, with the exact
  arithmetic that the doubles of the source approximate (no rounding error, no \<open>NaN\<close>,
  no infinities).
\<close>

definition js_rem :: "int \<Rightarrow> int \<Rightarrow> int" where
  \<comment> \<open>The \<open>%\<close> operator: the result takes the sign of the dividend.\<close>
  "js_rem a n = sgn a * (\<bar>a\<bar> mod \<bar>n\<bar>)"

definition math_round :: "real \<Rightarrow> int" where
  \<comment> \<open>\<open>Math.round\<close>: the nearest integer, a half rounding towards plus infinity.\<close>
  "math_round v = \<lfloor>v + 1 / 2\<rfloor>"

definition atan2 :: "real \<Rightarrow> real \<Rightarrow> real" where
  \<comment> \<open>\<open>Math.atan2(dy, dx)\<close>, the angle of the point \<open>(dx, dy)\<close> in \<open>(-\<pi>, \<pi>]\<close>.\<close>
  "atan2 dy dx =
     (if 0 < dx then arctan (dy / dx)
      else if dx < 0 then (if 0 \<le> dy then arctan (dy / dx) + pi else arctan (dy / dx) - pi)
      else if 0 < dy then pi / 2
      else if dy < 0 then - (pi / 2)
      else 0)"

section \<open>Bubble\<close>

datatype bubbleState = Static | Moving | Falling | Exploding | Destroyed

text \<open>
  The fields of \<open>class Bubble\<close>. The fields \<open>x\<close> and \<open>y\<close> are called \<open>bubble_x\<close> and
  \<open>bubble_y\<close>. A colour is a string, \<open>None\<close> standing for \<open>undefined\<close> (what reading
  an array past its end gives); \<open>rotation\<close> is \<open>undefined\<close> until the first falling
  frame.
\<close>

record Bubble =
  bubble_x :: real
  bubble_y :: real
  originalX :: real
  originalY :: real
  color :: "string option"
  radius :: real
  vx :: real
  vy :: real
  state :: bubbleState
  animationFrame :: int
  glowIntensity :: real
  gridRow :: int
  gridCol :: int
  rotation :: "real option"

definition new_Bubble :: "real \<Rightarrow> real \<Rightarrow> string option \<Rightarrow> real \<Rightarrow> Bubble" where
  \<comment> \<open>\<open>constructor(x, y, color, radius = 20)\<close>\<close>
  "new_Bubble px py c r =
     \<lparr> bubble_x = px, bubble_y = py, originalX = px, originalY = py, color = c, radius = r,
       vx = 0, vy = 0, state = Static, animationFrame = 0, glowIntensity = 0,
       gridRow = - 1, gridCol = - 1, rotation = None \<rparr>"

definition update :: "real \<Rightarrow> Bubble \<Rightarrow> Bubble" where
  \<comment> \<open>\<open>Bubble.update()\<close>; the first argument is the value of \<open>Date.now()\<close>.\<close>
  "update now b =
     (case state b of
        Moving \<Rightarrow> b\<lparr> bubble_x := bubble_x b + vx b, bubble_y := bubble_y b + vy b \<rparr>
      | Falling \<Rightarrow>
          (let vy1 = vy b + 0.5 in
           b\<lparr> vy := vy1,
              bubble_x := bubble_x b + vx b * 0.98,
              bubble_y := bubble_y b + vy1,
              rotation := Some ((case rotation b of None \<Rightarrow> 0 | Some r \<Rightarrow> r) + 0.1) \<rparr>)
      | Exploding \<Rightarrow>
          (let frame = animationFrame b + 1;
               b1 = b\<lparr> animationFrame := frame,
                        glowIntensity := sin (of_int frame * 0.3) * 0.5 + 0.5 \<rparr>
           in if frame > 20 then b1\<lparr> state := Destroyed \<rparr> else b1)
      | Static \<Rightarrow> b\<lparr> glowIntensity := sin (now * 0.002) * 0.1 + 0.1 \<rparr>
      | Destroyed \<Rightarrow> b)"

definition setGridPosition :: "int \<Rightarrow> int \<Rightarrow> Bubble \<Rightarrow> Bubble" where
  "setGridPosition row col b = b\<lparr> gridRow := row, gridCol := col \<rparr>"

definition explode :: "Bubble \<Rightarrow> Bubble" where
  "explode b = b\<lparr> state := Exploding, animationFrame := 0 \<rparr>"

definition stop :: "Bubble \<Rightarrow> Bubble" where
  "stop b = b\<lparr> state := Static, vx := 0, vy := 0 \<rparr>"

definition bounceOffWalls :: "real \<Rightarrow> real \<Rightarrow> Bubble \<Rightarrow> Bubble" where
  \<comment> \<open>\<open>Bubble.bounceOffWalls(canvasWidth, canvasHeight)\<close>\<close>
  "bounceOffWalls canvasWidth canvasHeight b =
     (let b1 = (if bubble_x b \<le> radius b \<or> bubble_x b \<ge> canvasWidth - radius b
                then b\<lparr> vx := - vx b,
                        bubble_x := max (radius b) (min (canvasWidth - radius b) (bubble_x b)) \<rparr>
                else b)
      in if bubble_y b1 \<le> radius b1
         then b1\<lparr> vy := - vy b1, bubble_y := radius b1 \<rparr>
         else b1)"

definition collidesWith :: "Bubble \<Rightarrow> Bubble \<Rightarrow> bool" where
  "collidesWith b other =
     (let dx = bubble_x b - bubble_x other;
          dy = bubble_y b - bubble_y other;
          distance = sqrt (dx * dx + dy * dy)
      in distance < radius b + radius other)"

section \<open>BubbleGrid\<close>

text \<open>
  \<open>this.grid\<close> is an array of \<open>rows\<close> arrays of \<open>cols\<close> entries, each a bubble or
  \<open>null\<close>. Every read and write of the source goes through \<open>isValidPosition\<close>, so the
  array is modelled as a map from \<open>(row, col)\<close> to the occupant, \<open>None\<close> for \<open>null\<close>.
  The geometry fields are assigned once, in the constructor, and are constants here.
\<close>

record BubbleGrid =
  rows :: int
  cols :: int
  grid :: "int \<times> int \<Rightarrow> Bubble option"

definition bubbleRadius :: real where
  "bubbleRadius = 20"

definition hexOffsetX :: real where
  "hexOffsetX = bubbleRadius * 2"

definition hexOffsetY :: real where
  "hexOffsetY = bubbleRadius * sqrt 3"

definition startX :: real where
  "startX = 50"

definition startY :: real where
  "startY = 50"

definition new_BubbleGrid :: "int \<Rightarrow> int \<Rightarrow> BubbleGrid" where
  \<comment> \<open>The constructor followed by \<open>initGrid()\<close>: every cell is \<open>null\<close>.\<close>
  "new_BubbleGrid r c = \<lparr> rows = r, cols = c, grid = (\<lambda>cell. None) \<rparr>"

definition getPosition :: "int \<Rightarrow> int \<Rightarrow> real \<times> real" where
  "getPosition row col =
     (startX + of_int col * hexOffsetX + of_int (js_rem row 2) * bubbleRadius,
      startY + of_int row * hexOffsetY)"

definition getGridPosition :: "real \<Rightarrow> real \<Rightarrow> int \<times> int" where
  "getGridPosition px py =
     (let row = math_round ((py - startY) / hexOffsetY);
          offsetX = of_int (js_rem row 2) * bubbleRadius;
          col = math_round ((px - startX - offsetX) / hexOffsetX)
      in (row, col))"

definition isValidPosition :: "BubbleGrid \<Rightarrow> int \<Rightarrow> int \<Rightarrow> bool" where
  "isValidPosition g row col \<longleftrightarrow> row \<ge> 0 \<and> row < rows g \<and> col \<ge> 0 \<and> col < cols g"

definition addBubble :: "BubbleGrid \<Rightarrow> int \<Rightarrow> int \<Rightarrow> Bubble \<Rightarrow> bool \<times> BubbleGrid" where
  \<comment> \<open>Returns the boolean of the source and the grid after the call.\<close>
  "addBubble g row col b =
     (if isValidPosition g row col then
        (let pos = getPosition row col;
             b1 = stop (setGridPosition row col (b\<lparr> bubble_x := fst pos, bubble_y := snd pos \<rparr>))
         in (True, g\<lparr> grid := (grid g)((row, col) \<mapsto> b1) \<rparr>))
      else (False, g))"

definition removeBubble :: "BubbleGrid \<Rightarrow> int \<Rightarrow> int \<Rightarrow> Bubble option \<times> BubbleGrid" where
  "removeBubble g row col =
     (if isValidPosition g row col then
        (grid g (row, col), g\<lparr> grid := (grid g)((row, col) := None) \<rparr>)
      else (None, g))"

definition getBubble :: "BubbleGrid \<Rightarrow> int \<Rightarrow> int \<Rightarrow> Bubble option" where
  "getBubble g row col = (if isValidPosition g row col then grid g (row, col) else None)"

definition evenRowOffsets :: "(int \<times> int) list" where
  "evenRowOffsets = [(- 1, - 1), (- 1, 0), (0, - 1), (0, 1), (1, - 1), (1, 0)]"

definition oddRowOffsets :: "(int \<times> int) list" where
  "oddRowOffsets = [(- 1, 0), (- 1, 1), (0, - 1), (0, 1), (1, 0), (1, 1)]"

definition getNeighbors :: "BubbleGrid \<Rightarrow> int \<Rightarrow> int \<Rightarrow> (int \<times> int) list" where
  "getNeighbors g row col =
     (let isEvenRow = (js_rem row 2 = 0);
          offsets = (if isEvenRow then evenRowOffsets else oddRowOffsets)
      in filter (\<lambda>(newRow, newCol). isValidPosition g newRow newCol)
           (map (\<lambda>(dRow, dCol). (row + dRow, col + dCol)) offsets))"

definition validCells :: "BubbleGrid \<Rightarrow> (int \<times> int) set" where
  \<comment> \<open>The cells that \<open>isValidPosition\<close> accepts; used to measure the search below.\<close>
  "validCells g = {0 ..< rows g} \<times> {0 ..< cols g}"

text \<open>
  \<open>findConnectedBubbles(row, col, color, visited)\<close> shares one mutable \<open>visited\<close> set
  among all its recursive calls, so the model returns the set along with the list.
  The key \<open>`${row},${col}`\<close> is the pair \<open>(row, col)\<close>, an entry \<open>{ row, col, bubble }\<close>
  of the result is the triple \<open>(row, col, bubble)\<close>, and \<open>findConnectedLoop\<close> is the
  \<open>for\<close> loop over the neighbours, with the list accumulated so far.
\<close>

function findConnectedBubbles ::
    "BubbleGrid \<Rightarrow> int \<Rightarrow> int \<Rightarrow> string option \<Rightarrow> (int \<times> int) set
       \<Rightarrow> (int \<times> int \<times> Bubble) list \<times> (int \<times> int) set"
  and findConnectedLoop ::
    "BubbleGrid \<Rightarrow> string option \<Rightarrow> (int \<times> int) list \<Rightarrow> (int \<times> int \<times> Bubble) list
       \<Rightarrow> (int \<times> int) set \<Rightarrow> (int \<times> int \<times> Bubble) list \<times> (int \<times> int) set"
where
  "findConnectedBubbles g row col c visited =
     (if (row, col) \<in> visited then ([], visited)
      else case getBubble g row col of
          None \<Rightarrow> ([], visited)
        | Some b \<Rightarrow>
            if color b \<noteq> c then ([], visited)
            else findConnectedLoop g c (getNeighbors g row col) [(row, col, b)]
                   (insert (row, col) visited))"
| "findConnectedLoop g c [] conn visited = (conn, visited)"
| "findConnectedLoop g c ((nRow, nCol) # ns) conn visited =
     (case findConnectedBubbles g nRow nCol c visited of
        (found, visited1) \<Rightarrow> findConnectedLoop g c ns (conn @ found) visited1)"
  by pat_completeness auto

text \<open>The visited set only grows; the termination proof of the nested recursion needs it.\<close>

lemma visited_mono_dom:
  "findConnectedBubbles_findConnectedLoop_dom (Inl (g, row, col, c, visited)) \<Longrightarrow>
     visited \<subseteq> snd (findConnectedBubbles g row col c visited)"
  "findConnectedBubbles_findConnectedLoop_dom (Inr (g, c, ns, conn, visited)) \<Longrightarrow>
     visited \<subseteq> snd (findConnectedLoop g c ns conn visited)"
proof (induction g row col c visited and g c ns conn visited
    rule: findConnectedBubbles_findConnectedLoop.pinduct)
  case (1 g row col c visited)
  then show ?case
    by (auto simp: findConnectedBubbles.psimps split: option.splits)
next
  case (2 g c conn visited)
  then show ?case by (simp add: findConnectedLoop.psimps)
next
  case (3 g c nRow nCol ns conn visited)
  show ?case
  proof (cases "findConnectedBubbles g nRow nCol c visited")
    case (Pair found visited1)
    with 3 have "visited \<subseteq> visited1"
      "visited1 \<subseteq> snd (findConnectedLoop g c ns (conn @ found) visited1)"
      by auto
    with 3(1) Pair show ?thesis
      by (auto simp: findConnectedLoop.psimps)
  qed
qed

termination findConnectedBubbles
proof (relation "inv_image (less_than <*lex*> less_than)
    (\<lambda>a. case a of
       Inl (g, row, col, c, visited) \<Rightarrow> (card (validCells g - visited), 0)
     | Inr (g, c, ns, conn, visited) \<Rightarrow> (card (validCells g - visited), Suc (length ns)))",
    goal_cases)
  case 1
  then show ?case by (intro wf_inv_image wf_lex_prod wf_less_than)
next
  case (2 g row col c visited b)
  then have "(row, col) \<in> validCells g - visited"
    by (auto simp: getBubble_def isValidPosition_def validCells_def split: if_splits)
  moreover have "finite (validCells g - visited)"
    by (simp add: validCells_def)
  ultimately have
    "card (validCells g - insert (row, col) visited) < card (validCells g - visited)"
    by (metis Diff_insert card_Diff1_less)
  then show ?case by simp
next
  case (3 g c nRow nCol ns conn visited)
  then show ?case by simp
next
  case (4 g c nRow nCol ns conn visited found visited1)
  then have "visited \<subseteq> visited1"
    using visited_mono_dom(1)[of g nRow nCol c visited] by (metis snd_conv)
  then have "card (validCells g - visited1) \<le> card (validCells g - visited)"
    by (intro card_mono) (auto simp: validCells_def)
  then show ?case by auto
qed

function scanUpward :: "BubbleGrid \<Rightarrow> int \<Rightarrow> int \<Rightarrow> int \<times> int" where
  \<comment> \<open>\<open>for (let r = row; r >= 0; r--)\<close> of \<open>findNearestEmptyPosition\<close>, with the
      \<open>return\<close> that follows the loop.\<close>
  "scanUpward g r col =
     (if r \<ge> 0 then
        (if getBubble g r col = None then (r, col) else scanUpward g (r - 1) col)
      else (0, col))"
  by pat_completeness auto
termination
  by (relation "measure (\<lambda>(g, r, col). nat (r + 1))") auto

declare scanUpward.simps [simp del]

definition findNearestEmptyPosition :: "BubbleGrid \<Rightarrow> real \<Rightarrow> real \<Rightarrow> int \<times> int" where
  "findNearestEmptyPosition g px py =
     (let gridPos = getGridPosition px py;
          row = max 0 (min (rows g - 1) (fst gridPos));
          col = max 0 (min (cols g - 1) (snd gridPos))
      in if getBubble g row col = None then (row, col) else scanUpward g row col)"

text \<open>
  \<open>clear()\<close> and \<open>createLevel(levelData)\<close>. The level data is \<open>None\<close> when
  \<open>levelData\<close> or its \<open>bubbles\<close> is missing, and otherwise the rows of
  \<open>levelData.bubbles\<close>, an entry being \<open>None\<close> for \<open>null\<close> or a colour string (the empty
  string is falsy and places nothing).
\<close>

definition clear :: "BubbleGrid \<Rightarrow> BubbleGrid" where
  "clear g = g\<lparr> grid := (\<lambda>cell. None) \<rparr>"

fun createLevelRow :: "BubbleGrid \<Rightarrow> int \<Rightarrow> int \<Rightarrow> string option list \<Rightarrow> BubbleGrid" where
  "createLevelRow g row col [] = g"
| "createLevelRow g row col (cell # rowData) =
     createLevelRow
       (case cell of
          None \<Rightarrow> g
        | Some c \<Rightarrow>
            if c = [] then g
            else (let pos = getPosition row col
                  in snd (addBubble g row col (new_Bubble (fst pos) (snd pos) (Some c) 20))))
       row (col + 1) rowData"

fun createLevelRows :: "BubbleGrid \<Rightarrow> int \<Rightarrow> string option list list \<Rightarrow> BubbleGrid" where
  "createLevelRows g row [] = g"
| "createLevelRows g row (rowData # bubbles) =
     createLevelRows (createLevelRow g row 0 rowData) (row + 1) bubbles"

definition createLevel :: "BubbleGrid \<Rightarrow> string option list list option \<Rightarrow> BubbleGrid" where
  "createLevel g levelData =
     (case levelData of
        None \<Rightarrow> clear g
      | Some bubbles \<Rightarrow> createLevelRows (clear g) 0 bubbles)"

section \<open>Shooter\<close>

text \<open>The fields of \<open>class Shooter\<close>; \<open>x\<close> and \<open>y\<close> are \<open>shooter_x\<close> and \<open>shooter_y\<close>.\<close>

record Shooter =
  shooter_x :: real
  shooter_y :: real
  angle :: real
  power :: real
  currentBubble :: "Bubble option"
  nextBubble :: "Bubble option"
  trajectory :: "(real \<times> real) list"
  colors :: "string list"

definition generateRandomBubble :: "Shooter \<Rightarrow> real \<Rightarrow> Bubble" where
  \<comment> \<open>The second argument is the value of \<open>Math.random()\<close>.\<close>
  "generateRandomBubble s rnd =
     (let i = \<lfloor>rnd * of_nat (length (colors s))\<rfloor>;
          c = (if 0 \<le> i \<and> i < int (length (colors s)) then Some (colors s ! nat i) else None)
      in new_Bubble (shooter_x s) (shooter_y s - 30) c 15)"

fun trajectoryLoop ::
    "nat \<Rightarrow> real \<Rightarrow> real \<Rightarrow> real \<Rightarrow> real \<Rightarrow> (real \<times> real) list \<Rightarrow> (real \<times> real) list" where
  \<comment> \<open>The \<open>for\<close> loop of \<open>calculateTrajectory\<close>; the first argument counts the
      iterations that remain, and \<open>stepSize\<close> is 1.\<close>
  "trajectoryLoop 0 px py pvx pvy points = points"
| "trajectoryLoop (Suc n) px py pvx pvy points =
     (let px1 = px + pvx * 1;
          py1 = py + pvy * 1;
          bounce = (px1 \<le> 15 \<or> px1 \<ge> 785);
          pvx1 = (if bounce then - pvx else pvx);
          px2 = (if bounce then max 15 (min 785 px1) else px1)
      in if py1 \<le> 50 then points
         else trajectoryLoop n px2 py1 pvx1 pvy (points @ [(px2, py1)]))"

definition calculateTrajectory :: "Shooter \<Rightarrow> Shooter" where
  "calculateTrajectory s =
     s\<lparr> trajectory :=
          trajectoryLoop 100 (shooter_x s) (shooter_y s - 30)
            (cos (angle s) * power s) (sin (angle s) * power s) [] \<rparr>"

definition minAngle :: real where
  "minAngle = - pi * 0.8"

definition maxAngle :: real where
  "maxAngle = - pi * 0.2"

definition aim :: "Shooter \<Rightarrow> real \<Rightarrow> real \<Rightarrow> Shooter" where
  "aim s targetX targetY =
     (let a = atan2 (targetY - shooter_y s) (targetX - shooter_x s);
          a1 = max minAngle (min maxAngle a)
      in calculateTrajectory (s\<lparr> angle := a1 \<rparr>))"

definition shoot :: "Shooter \<Rightarrow> real \<Rightarrow> Bubble option \<times> Shooter" where
  \<comment> \<open>Returns the result of the source (\<open>None\<close> for \<open>null\<close>) and the shooter after the
      call; the second argument is the value of \<open>Math.random()\<close>. The preview update
      only writes to the page.\<close>
  "shoot s rnd =
     (case currentBubble s of
        None \<Rightarrow> (None, s)
      | Some b \<Rightarrow>
          (let b1 = b\<lparr> bubble_x := shooter_x s, bubble_y := shooter_y s - 30,
                       vx := cos (angle s) * power s, vy := sin (angle s) * power s,
                       state := Moving \<rparr>;
               s1 = s\<lparr> currentBubble := nextBubble s \<rparr>;
               s2 = s1\<lparr> nextBubble := Some (generateRandomBubble s1 rnd) \<rparr>
           in (Some b1, s2)))"

section \<open>BubbleGame\<close>

datatype gameState = Menu | Playing | Paused | Gameover | Win

text \<open>
  The fields of \<open>class BubbleGame\<close> that the game logic uses. A bubble taken out of the
  grid by \<open>checkElimination\<close> is referenced by nothing once the call returns, so the
  model returns the list of those bubbles, as \<open>explode()\<close> left them, beside the game.
\<close>

record BubbleGame =
  gameState :: gameState
  score :: int
  level :: int
  highScore :: int
  bubbleGrid :: BubbleGrid
  shooter :: Shooter
  movingBubbles :: "Bubble list"

definition updateScore :: "BubbleGame \<Rightarrow> BubbleGame" where
  \<comment> \<open>Apart from what it writes to the page and to local storage.\<close>
  "updateScore gm = (if score gm > highScore gm then gm\<lparr> highScore := score gm \<rparr> else gm)"

fun eliminateLoop ::
    "BubbleGrid \<Rightarrow> (int \<times> int \<times> Bubble) list \<Rightarrow> int \<Rightarrow> Bubble list
       \<Rightarrow> BubbleGrid \<times> int \<times> Bubble list" where
  \<comment> \<open>\<open>for (const item of connected)\<close> of \<open>checkElimination\<close>: the grid, the
      \<open>eliminatedCount\<close> and the bubbles exploded so far.\<close>
  "eliminateLoop g [] eliminatedCount exploded = (g, eliminatedCount, exploded)"
| "eliminateLoop g ((row, col, b) # items) eliminatedCount exploded =
     (case removeBubble g row col of
        (None, g1) \<Rightarrow> eliminateLoop g1 items eliminatedCount exploded
      | (Some eliminatedBubble, g1) \<Rightarrow>
          eliminateLoop g1 items (eliminatedCount + 1) (exploded @ [explode eliminatedBubble]))"

definition checkElimination :: "BubbleGame \<Rightarrow> int \<Rightarrow> int \<Rightarrow> BubbleGame \<times> Bubble list" where
  "checkElimination gm row col =
     (case getBubble (bubbleGrid gm) row col of
        None \<Rightarrow> (gm, [])
      | Some b \<Rightarrow>
          (let conn = fst (findConnectedBubbles (bubbleGrid gm) row col (color b) {})
           in if length conn \<ge> 3 then
                (case eliminateLoop (bubbleGrid gm) conn 0 [] of
                   (g1, eliminatedCount, exploded) \<Rightarrow>
                     (updateScore (gm\<lparr> bubbleGrid := g1,
                                       score := score gm + eliminatedCount * 10 \<rparr>),
                      exploded))
              else (gm, [])))"

definition attachBubbleToGrid :: "BubbleGame \<Rightarrow> Bubble \<Rightarrow> BubbleGame \<times> Bubble list" where
  "attachBubbleToGrid gm b =
     (let gridPos = findNearestEmptyPosition (bubbleGrid gm) (bubble_x b) (bubble_y b)
      in case addBubble (bubbleGrid gm) (fst gridPos) (snd gridPos) b of
           (True, g1) \<Rightarrow> checkElimination (gm\<lparr> bubbleGrid := g1 \<rparr>) (fst gridPos) (snd gridPos)
         | (False, g1) \<Rightarrow> (gm\<lparr> bubbleGrid := g1 \<rparr>, []))"

text \<open>A sequence of \<open>aim\<close> calls, one for each target of the list, in order.\<close>

fun aimSequence :: "Shooter \<Rightarrow> (real \<times> real) list \<Rightarrow> Shooter" where
  "aimSequence s [] = s"
| "aimSequence s ((targetX, targetY) # targets) = aimSequence (aim s targetX targetY) targets"

section \<open>Example states\<close>

text \<open>The shooter of the game at \<open>(400, 550)\<close>, aiming straight up, with two bubbles loaded.\<close>

definition shooter0 :: Shooter where
  "shooter0 =
     \<lparr> shooter_x = 400, shooter_y = 550, angle = - (pi / 2), power = 12,
       currentBubble = Some (new_Bubble 400 520 (Some ''#FF6B6B'') 15),
       nextBubble = Some (new_Bubble 400 520 (Some ''#4ECDC4'') 15),
       trajectory = [],
       colors = [''#FF6B6B'', ''#FFB347'', ''#6BCF7F'', ''#4ECDC4'', ''#A8E6CF''] \<rparr>"

text \<open>
  A 5 by 5 grid loaded with three red bubbles at \<open>(0, 0)\<close>, \<open>(0, 1)\<close> and \<open>(1, 0)\<close>, each
  a neighbour of the other two, one of another colour at \<open>(0, 3)\<close> and a red one alone at
  \<open>(3, 3)\<close>; and a game in play on that grid.
\<close>

definition exampleGrid :: BubbleGrid where
  "exampleGrid =
     createLevel (new_BubbleGrid 5 5)
       (Some [[Some ''#FF6B6B'', Some ''#FF6B6B'', None, Some ''#4ECDC4''],
              [Some ''#FF6B6B''],
              [],
              [None, None, None, Some ''#FF6B6B'']])"

definition exampleGame :: BubbleGame where
  "exampleGame =
     \<lparr> gameState = Playing, score = 0, level = 1, highScore = 0, bubbleGrid = exampleGrid,
       shooter = shooter0, movingBubbles = [] \<rparr>"

text \<open>
  The 10 by 16 grid of the game with a single red bubble, at \<open>(0, 0)\<close>, and a bubble in
  flight, shot up and to the left, in the frame of its flight where it first overlaps
  the red one (a frame earlier, at \<open>(77.6, 73.2)\<close>, the two centres are more than the
  sum of the radii apart).
\<close>

definition loneGame :: BubbleGame where
  "loneGame =
     \<lparr> gameState = Playing, score = 0, level = 1, highScore = 0,
       bubbleGrid = createLevel (new_BubbleGrid 10 16) (Some [[Some ''#FF6B6B'']]),
       shooter = shooter0, movingBubbles = [] \<rparr>"

definition flyingBubble :: Bubble where
  "flyingBubble =
     (new_Bubble 400 520 (Some ''#FFB347'') 15)
       \<lparr> bubble_x := 68, bubble_y := 66, vx := - 9.6, vy := - 7.2, state := Moving \<rparr>"

section \<open>Same-colour components\<close>

text \<open>
  What the search is measured against: a cell has colour \<open>c\<close> when it is occupied by a
  bubble of that colour, and the component of an origin cell is the least set that holds
  the origin, if it has the colour, and every neighbour (as \<open>getNeighbors\<close> lists them)
  with the colour of a cell it holds.
\<close>

definition hasColor :: "BubbleGrid \<Rightarrow> string option \<Rightarrow> int \<times> int \<Rightarrow> bool" where
  "hasColor g c cell \<longleftrightarrow>
     (case getBubble g (fst cell) (snd cell) of None \<Rightarrow> False | Some b \<Rightarrow> color b = c)"

inductive_set sameColorComponent :: "BubbleGrid \<Rightarrow> string option \<Rightarrow> int \<times> int \<Rightarrow> (int \<times> int) set"
  for g :: BubbleGrid and c :: "string option" and origin :: "int \<times> int"
where
  origin: "hasColor g c origin \<Longrightarrow> origin \<in> sameColorComponent g c origin"
| step: "a \<in> sameColorComponent g c origin \<Longrightarrow> n \<in> set (getNeighbors g (fst a) (snd a)) \<Longrightarrow>
         hasColor g c n \<Longrightarrow> n \<in> sameColorComponent g c origin"

text \<open>The cells of a list of \<open>{ row, col, bubble }\<close> entries, in order.\<close>

definition cellsOf :: "(int \<times> int \<times> Bubble) list \<Rightarrow> (int \<times> int) list" where
  "cellsOf items = map (\<lambda>(r, k, b). (r, k)) items"

text \<open>
  The invariant of the search, relating the visited set \<open>V\<close> before a call, the entries
  \<open>found\<close> that the call adds and the visited set \<open>V'\<close> after it: the call visits
  exactly the cells it returns, each once and none that was visited before, every entry
  holds the bubble of its cell, of the colour searched, and every neighbour with that
  colour of a returned cell is visited by the end of the call.
\<close>

definition dfsInv ::
    "BubbleGrid \<Rightarrow> string option \<Rightarrow> (int \<times> int) set \<Rightarrow> (int \<times> int \<times> Bubble) list
       \<Rightarrow> (int \<times> int) set \<Rightarrow> bool" where
  "dfsInv g c V found V' \<longleftrightarrow>
     V' = V \<union> set (cellsOf found)
     \<and> distinct (cellsOf found)
     \<and> set (cellsOf found) \<inter> V = {}
     \<and> (\<forall>(r, k, b) \<in> set found. getBubble g r k = Some b \<and> color b = c)
     \<and> (\<forall>a \<in> set (cellsOf found). \<forall>n \<in> set (getNeighbors g (fst a) (snd a)).
           hasColor g c n \<longrightarrow> n \<in> V')"

section \<open>Properties of the grid geometry\<close>

text \<open>The definitions to unfold when a grid operation is evaluated on a concrete grid.\<close>

lemmas grid_eval =
  createLevel_def clear_def new_BubbleGrid_def addBubble_def removeBubble_def
  isValidPosition_def getBubble_def getNeighbors_def js_rem_def evenRowOffsets_def
  oddRowOffsets_def stop_def setGridPosition_def new_Bubble_def Let_def

lemmas pixel_eval =
  getGridPosition_def getPosition_def math_round_def startX_def startY_def hexOffsetX_def
  hexOffsetY_def bubbleRadius_def

lemma js_rem_2_even: "js_rem row 2 = 0 \<longleftrightarrow> even row"
  unfolding js_rem_def by (cases "row = 0") (auto simp: sgn_if even_iff_mod_2_eq_zero)

lemma getNeighbors_unfold:
  "getNeighbors g row col =
     filter (\<lambda>(newRow, newCol). isValidPosition g newRow newCol)
       (map (\<lambda>(dRow, dCol). (row + dRow, col + dCol))
         (if even row then evenRowOffsets else oddRowOffsets))"
  by (simp add: getNeighbors_def js_rem_2_even)

lemma distinct_shifted_offsets:
  "distinct (map (\<lambda>(dRow, dCol). (row + dRow, col + dCol)) evenRowOffsets)"
  "distinct (map (\<lambda>(dRow, dCol). (row + dRow, col + dCol)) oddRowOffsets)"
  by (simp_all add: evenRowOffsets_def oddRowOffsets_def)

text \<open>
  Claim C9. For every cell \<open>(row, col)\<close>, in range or not, \<open>getNeighbors\<close> returns only
  cells that \<open>isValidPosition\<close> accepts, returns no cell twice and returns at most 6
  cells. The offsets are those of the even rows when \<open>row\<close> is even and those of the
  odd rows otherwise, and the diagonal offsets (row delta not 0) of the odd rows are
  those of the even rows with the column delta negated.
\<close>

theorem getNeighbors_in_bounds_distinct:
  "(\<forall>(r, c) \<in> set (getNeighbors g row col). isValidPosition g r c)
   \<and> distinct (getNeighbors g row col)
   \<and> length (getNeighbors g row col) \<le> 6
   \<and> getNeighbors g row col =
       filter (\<lambda>(newRow, newCol). isValidPosition g newRow newCol)
         (map (\<lambda>(dRow, dCol). (row + dRow, col + dCol))
           (if even row then evenRowOffsets else oddRowOffsets))
   \<and> set (map (\<lambda>(dRow, dCol). (dRow, - dCol)) (filter (\<lambda>(dRow, dCol). dRow \<noteq> 0) evenRowOffsets))
       = set (filter (\<lambda>(dRow, dCol). dRow \<noteq> 0) oddRowOffsets)"
proof (intro conjI)
  show "\<forall>(r, c) \<in> set (getNeighbors g row col). isValidPosition g r c"
    by (auto simp: getNeighbors_unfold)
  show "distinct (getNeighbors g row col)"
    unfolding getNeighbors_unfold using distinct_shifted_offsets[of row col]
    by (simp add: distinct_filter del: distinct_map)
  have "length (getNeighbors g row col)
      \<le> length (map (\<lambda>(dRow, dCol). (row + dRow, col + dCol))
           (if even row then evenRowOffsets else oddRowOffsets))"
    unfolding getNeighbors_unfold by (rule length_filter_le)
  also have "\<dots> = 6"
    by (simp add: evenRowOffsets_def oddRowOffsets_def)
  finally show "length (getNeighbors g row col) \<le> 6" .
  show "getNeighbors g row col =
       filter (\<lambda>(newRow, newCol). isValidPosition g newRow newCol)
         (map (\<lambda>(dRow, dCol). (row + dRow, col + dCol))
           (if even row then evenRowOffsets else oddRowOffsets))"
    by (rule getNeighbors_unfold)
  show "set (map (\<lambda>(dRow, dCol). (dRow, - dCol)) (filter (\<lambda>(dRow, dCol). dRow \<noteq> 0) evenRowOffsets))
       = set (filter (\<lambda>(dRow, dCol). dRow \<noteq> 0) oddRowOffsets)"
    by (auto simp: evenRowOffsets_def oddRowOffsets_def)
qed

theorem getNeighbors_witness:
  "getNeighbors (new_BubbleGrid 10 16) 1 0 = [(0, 0), (0, 1), (1, 1), (2, 0), (2, 1)]
   \<and> getNeighbors (new_BubbleGrid 10 16) (- 1) 0 = [(0, 0), (0, 1)]
   \<and> list_all (\<lambda>(r, c). isValidPosition (new_BubbleGrid 10 16) r c)
         (getNeighbors (new_BubbleGrid 10 16) 1 0)
   \<and> distinct (getNeighbors (new_BubbleGrid 10 16) 1 0)
   \<and> length (getNeighbors (new_BubbleGrid 10 16) 1 0) \<le> 6"
  using getNeighbors_in_bounds_distinct[of "new_BubbleGrid 10 16" 1 0]
  by (simp add: getNeighbors_def js_rem_def evenRowOffsets_def oddRowOffsets_def
      isValidPosition_def new_BubbleGrid_def)

lemma hexOffsetY_pos: "0 < hexOffsetY"
  by (simp add: hexOffsetY_def bubbleRadius_def)

lemma math_round_of_int: "math_round (of_int n) = n"
  unfolding math_round_def by linarith

text \<open>
  Claim C3. \<open>getGridPosition\<close> applied to the pixel centre that \<open>getPosition\<close> gives
  for a cell returns that cell. It holds for every integer \<open>row\<close> and \<open>col\<close>, so in
  particular for the cells within the bounds of any grid, on even rows and on odd rows
  (with their shift by one bubble radius).
\<close>

theorem getGridPosition_getPosition:
  "getGridPosition (fst (getPosition row col)) (snd (getPosition row col)) = (row, col)"
proof -
  have r: "(snd (getPosition row col) - startY) / hexOffsetY = of_int row"
    using hexOffsetY_pos by (simp add: getPosition_def)
  have c: "(fst (getPosition row col) - startX - of_int (js_rem row 2) * bubbleRadius) / hexOffsetX
      = of_int col"
    by (simp add: getPosition_def hexOffsetX_def bubbleRadius_def)
  show ?thesis
    unfolding getGridPosition_def Let_def r math_round_of_int c by simp
qed

section \<open>Properties of the shooter\<close>

lemma angle_aim: "angle (aim s tx ty) = max minAngle (min maxAngle (atan2 (ty - shooter_y s) (tx - shooter_x s)))"
  by (simp add: aim_def calculateTrajectory_def Let_def)

lemma minAngle_le_maxAngle: "minAngle \<le> maxAngle"
  using pi_gt_zero by (simp add: minAngle_def maxAngle_def)

lemma aim_cone: "minAngle \<le> angle (aim s tx ty) \<and> angle (aim s tx ty) \<le> maxAngle"
  using minAngle_le_maxAngle by (simp add: angle_aim)

lemma aimSequence_cone:
  "minAngle \<le> angle s \<and> angle s \<le> maxAngle \<Longrightarrow>
   minAngle \<le> angle (aimSequence s targets) \<and> angle (aimSequence s targets) \<le> maxAngle"
proof (induction targets arbitrary: s)
  case Nil
  then show ?case by simp
next
  case (Cons t targets)
  obtain tx ty where t: "t = (tx, ty)" by (cases t)
  show ?case unfolding t aimSequence.simps
    by (rule Cons.IH) (rule aim_cone)
qed

text \<open>
  Claim C4. After \<open>aim\<close>, and after any further sequence of \<open>aim\<close> calls, whatever the
  targets, the angle of the shooter lies between \<open>-0.8 \<pi>\<close> and \<open>-0.2 \<pi>\<close>; its sine is
  negative, so the direction \<open>(cos, sin)\<close> of a shot points up the canvas, never
  horizontally or down.
\<close>

theorem aim_angle_in_cone:
  "- 0.8 * pi \<le> angle (aimSequence (aim s targetX targetY) targets)
   \<and> angle (aimSequence (aim s targetX targetY) targets) \<le> - 0.2 * pi
   \<and> sin (angle (aimSequence (aim s targetX targetY) targets)) < 0"
proof -
  let ?a = "angle (aimSequence (aim s targetX targetY) targets)"
  have b: "minAngle \<le> ?a \<and> ?a \<le> maxAngle"
    by (rule aimSequence_cone) (rule aim_cone)
  then have lo: "- 0.8 * pi \<le> ?a" and hi: "?a \<le> - 0.2 * pi"
    by (simp_all add: minAngle_def maxAngle_def)
  have "- pi < ?a" "?a < 0"
    using lo hi pi_gt_zero by linarith+
  then have "0 < sin (- ?a)"
    by (intro sin_gt_zero) simp_all
  then have "sin ?a < 0"
    by simp
  with lo hi show ?thesis by simp
qed

lemma generateRandomBubble_current [simp]:
  "generateRandomBubble (s\<lparr> currentBubble := cb \<rparr>) rnd = generateRandomBubble s rnd"
  by (simp add: generateRandomBubble_def Let_def)

text \<open>
  Claim C7. With no bubble loaded, \<open>shoot\<close> returns no bubble and the shooter is
  unchanged in every field. With a bubble loaded, \<open>shoot\<close> returns that bubble, placed
  at the muzzle, in state \<open>Moving\<close>, with velocity \<open>power \<cdot> (cos angle, sin angle)\<close>; the
  queued bubble becomes the loaded one and a new bubble is queued, built at the muzzle
  with radius 15 and, when the palette is not empty and the random number lies in
  \<open>[0, 1)\<close>, with a colour of the palette.
\<close>

theorem shoot_fires_loaded_bubble:
  "(currentBubble s = None \<longrightarrow> shoot s rnd = (None, s))
   \<and> (\<forall>b. currentBubble s = Some b \<longrightarrow>
        shoot s rnd =
          (Some (b\<lparr> bubble_x := shooter_x s, bubble_y := shooter_y s - 30,
                    vx := power s * cos (angle s), vy := power s * sin (angle s),
                    state := Moving \<rparr>),
           s\<lparr> currentBubble := nextBubble s,
              nextBubble := Some (generateRandomBubble s rnd) \<rparr>))
   \<and> (\<exists>c. generateRandomBubble s rnd = new_Bubble (shooter_x s) (shooter_y s - 30) c 15
         \<and> (colors s \<noteq> [] \<and> 0 \<le> rnd \<and> rnd < 1 \<longrightarrow> c \<in> Some ` set (colors s)))"
proof (intro conjI allI impI)
  assume "currentBubble s = None"
  then show "shoot s rnd = (None, s)" by (simp add: shoot_def)
next
  fix b assume "currentBubble s = Some b"
  then show "shoot s rnd =
          (Some (b\<lparr> bubble_x := shooter_x s, bubble_y := shooter_y s - 30,
                    vx := power s * cos (angle s), vy := power s * sin (angle s),
                    state := Moving \<rparr>),
           s\<lparr> currentBubble := nextBubble s,
              nextBubble := Some (generateRandomBubble s rnd) \<rparr>)"
    by (simp add: shoot_def Let_def mult.commute)
next
  let ?n = "length (colors s)"
  let ?i = "\<lfloor>rnd * of_nat ?n\<rfloor>"
  let ?c = "if 0 \<le> ?i \<and> ?i < int ?n then Some (colors s ! nat ?i) else None"
  have eq: "generateRandomBubble s rnd = new_Bubble (shooter_x s) (shooter_y s - 30) ?c 15"
    by (simp add: generateRandomBubble_def Let_def)
  have "?c \<in> Some ` set (colors s)" if ne: "colors s \<noteq> []" and r: "0 \<le> rnd" "rnd < 1"
  proof -
    have n: "0 < real ?n" using ne by simp
    have "0 \<le> rnd * real ?n" using r n by simp
    then have lo: "0 \<le> ?i" by simp
    have "rnd * real ?n < real ?n" using r n by simp
    then have hi: "?i < int ?n" by (simp add: floor_less_iff)
    from lo hi have "nat ?i < ?n" by linarith
    then have "colors s ! nat ?i \<in> set (colors s)" by (rule nth_mem)
    with lo hi show ?thesis by simp
  qed
  with eq show "\<exists>c. generateRandomBubble s rnd = new_Bubble (shooter_x s) (shooter_y s - 30) c 15
         \<and> (colors s \<noteq> [] \<and> 0 \<le> rnd \<and> rnd < 1 \<longrightarrow> c \<in> Some ` set (colors s))"
    by blast
qed

theorem shoot_witness:
  "shoot (shooter0\<lparr> currentBubble := None \<rparr>) 0 = (None, shooter0\<lparr> currentBubble := None \<rparr>)
   \<and> fst (shoot shooter0 0)
       = Some ((new_Bubble 400 520 (Some ''#FF6B6B'') 15)\<lparr> vx := 0, vy := - 12, state := Moving \<rparr>)
   \<and> currentBubble (snd (shoot shooter0 0)) = Some (new_Bubble 400 520 (Some ''#4ECDC4'') 15)
   \<and> nextBubble (snd (shoot shooter0 0)) = Some (new_Bubble 400 520 (Some ''#FF6B6B'') 15)
   \<and> angle (snd (shoot shooter0 0)) = - (pi / 2)"
  using shoot_fires_loaded_bubble[of "shooter0\<lparr> currentBubble := None \<rparr>" 0]
    shoot_fires_loaded_bubble[of shooter0 0]
  by (simp add: shooter0_def new_Bubble_def generateRandomBubble_def)

section \<open>Properties of a bubble\<close>

text \<open>
  Claim C6. \<open>bounceOffWalls\<close> negates the horizontal velocity and clamps \<open>x\<close> between
  \<open>radius\<close> and \<open>canvasWidth - radius\<close> when the bubble touches the left or the right
  edge, and leaves both alone otherwise; on a canvas at least as wide as the bubble the
  resulting \<open>x\<close> is within that range. It negates the vertical velocity and sets \<open>y\<close>
  to \<open>radius\<close> when the bubble touches the top edge; below that, however far down, the
  vertical velocity and \<open>y\<close> are unchanged. A bubble at \<open>x = -2\<close> with \<open>vx = -3\<close> ends
  with \<open>vx = 3\<close> and \<open>x = radius\<close>, the least \<open>x\<close> within bounds.
\<close>

theorem bounceOffWalls_reflects:
  "(let b' = bounceOffWalls canvasWidth canvasHeight b in
     (bubble_x b \<le> radius b \<or> bubble_x b \<ge> canvasWidth - radius b \<longrightarrow>
        vx b' = - vx b
        \<and> bubble_x b' = max (radius b) (min (canvasWidth - radius b) (bubble_x b)))
     \<and> (radius b < bubble_x b \<and> bubble_x b < canvasWidth - radius b \<longrightarrow>
        vx b' = vx b \<and> bubble_x b' = bubble_x b)
     \<and> (radius b \<le> canvasWidth - radius b \<longrightarrow>
        radius b \<le> bubble_x b' \<and> bubble_x b' \<le> canvasWidth - radius b)
     \<and> (bubble_y b \<le> radius b \<longrightarrow> vy b' = - vy b \<and> bubble_y b' = radius b)
     \<and> (radius b < bubble_y b \<longrightarrow> vy b' = vy b \<and> bubble_y b' = bubble_y b)
     \<and> (bubble_x b = - 2 \<and> vx b = - 3 \<and> 0 < radius b \<and> radius b \<le> canvasWidth - radius b \<longrightarrow>
        vx b' = 3 \<and> bubble_x b' = radius b)
     \<and> radius b' = radius b \<and> state b' = state b \<and> color b' = color b)"
  by (auto simp: bounceOffWalls_def Let_def)

theorem bounceOffWalls_witness:
  "vx (bounceOffWalls 800 600 ((new_Bubble (- 2) 100 None 15)\<lparr> vx := - 3, vy := - 4, state := Moving \<rparr>)) = 3
   \<and> bubble_x (bounceOffWalls 800 600 ((new_Bubble (- 2) 100 None 15)\<lparr> vx := - 3, vy := - 4, state := Moving \<rparr>)) = 15
   \<and> vy (bounceOffWalls 800 600 ((new_Bubble (- 2) 100 None 15)\<lparr> vx := - 3, vy := - 4, state := Moving \<rparr>)) = - 4
   \<and> vy (bounceOffWalls 800 600 ((new_Bubble 400 10 None 15)\<lparr> vx := - 3, vy := - 4, state := Moving \<rparr>)) = 4
   \<and> bubble_y (bounceOffWalls 800 600 ((new_Bubble 400 10 None 15)\<lparr> vx := - 3, vy := - 4, state := Moving \<rparr>)) = 15
   \<and> vx (bounceOffWalls 800 600 ((new_Bubble 400 10 None 15)\<lparr> vx := - 3, vy := - 4, state := Moving \<rparr>)) = - 3
   \<and> vy (bounceOffWalls 800 600 ((new_Bubble 400 700 None 15)\<lparr> vx := - 3, vy := 4, state := Moving \<rparr>)) = 4"
  using
    bounceOffWalls_reflects[of 800 600 "(new_Bubble (- 2) 100 None 15)\<lparr> vx := - 3, vy := - 4, state := Moving \<rparr>"]
    bounceOffWalls_reflects[of 800 600 "(new_Bubble 400 10 None 15)\<lparr> vx := - 3, vy := - 4, state := Moving \<rparr>"]
    bounceOffWalls_reflects[of 800 600 "(new_Bubble 400 700 None 15)\<lparr> vx := - 3, vy := 4, state := Moving \<rparr>"]
  by (simp add: Let_def new_Bubble_def)

lemma update_exploding:
  "state b = Exploding \<Longrightarrow>
     animationFrame (update now b) = animationFrame b + 1
     \<and> state (update now b) = (if animationFrame b + 1 > 20 then Destroyed else Exploding)"
  by (simp add: update_def Let_def)

lemma update_destroyed: "state b = Destroyed \<Longrightarrow> update now b = b"
  by (simp add: update_def)

lemma updates_destroyed:
  "state b = Destroyed \<Longrightarrow> foldl (\<lambda>b now. update now b) b nows = b"
  by (induction nows) (simp_all add: update_destroyed)

lemma updates_exploding:
  "state b = Exploding \<Longrightarrow> animationFrame b + int (length nows) \<le> 20 \<Longrightarrow>
     state (foldl (\<lambda>b now. update now b) b nows) = Exploding
     \<and> animationFrame (foldl (\<lambda>b now. update now b) b nows) = animationFrame b + int (length nows)"
proof (induction nows arbitrary: b)
  case Nil
  then show ?case by simp
next
  case (Cons now nows)
  from Cons.prems have s: "state (update now b) = Exploding"
    and f: "animationFrame (update now b) = animationFrame b + 1"
    using update_exploding[of b now] by auto
  from Cons.prems f have "animationFrame (update now b) + int (length nows) \<le> 20"
    by simp
  from Cons.IH[OF s this] f show ?case by simp
qed

text \<open>
  Claim C8, amended. In state \<open>Exploding\<close> each \<open>update\<close> adds one to the frame counter.
  \<open>explode\<close> sets the state to \<open>Exploding\<close> and the counter to 0. After \<open>n \<le> 20\<close>
  updates from there the bubble is still \<open>Exploding\<close>, with counter \<open>n\<close>; the bubble
  becomes \<open>Destroyed\<close> at the 21st update, when the counter exceeds 20, and stays so
  (with counter 21) whatever the number of further updates.
\<close>

theorem explode_update_frames:
  "(state b = Exploding \<longrightarrow> animationFrame (update now b) = animationFrame b + 1)
   \<and> state (explode b) = Exploding \<and> animationFrame (explode b) = 0
   \<and> (length nows \<le> 20 \<longrightarrow>
        state (foldl (\<lambda>b now. update now b) (explode b) nows) = Exploding
        \<and> animationFrame (foldl (\<lambda>b now. update now b) (explode b) nows) = int (length nows))
   \<and> (length nows > 20 \<longrightarrow>
        state (foldl (\<lambda>b now. update now b) (explode b) nows) = Destroyed
        \<and> animationFrame (foldl (\<lambda>b now. update now b) (explode b) nows) = 21)"
proof (intro conjI impI)
  assume "state b = Exploding"
  then show "animationFrame (update now b) = animationFrame b + 1"
    by (simp add: update_exploding)
next
  show "state (explode b) = Exploding" "animationFrame (explode b) = 0"
    by (simp_all add: explode_def)
next
  assume "length nows \<le> 20"
  then show "state (foldl (\<lambda>b now. update now b) (explode b) nows) = Exploding"
    "animationFrame (foldl (\<lambda>b now. update now b) (explode b) nows) = int (length nows)"
    using updates_exploding[of "explode b" nows] by (simp_all add: explode_def)
next
  assume long: "length nows > 20"
  define pre where "pre = take 20 nows"
  define post where "post = drop 20 nows"
  have len: "length pre = 20" using long by (simp add: pre_def)
  obtain now rest where post: "post = now # rest"
    using long by (cases post) (simp_all add: post_def)
  have nows: "nows = pre @ now # rest"
    using post append_take_drop_id[of 20 nows] by (simp add: pre_def post_def)
  let ?b20 = "foldl (\<lambda>b now. update now b) (explode b) pre"
  have b20: "state ?b20 = Exploding" "animationFrame ?b20 = 20"
    using updates_exploding[of "explode b" pre] len by (simp_all add: explode_def)
  then have b21: "state (update now ?b20) = Destroyed" "animationFrame (update now ?b20) = 21"
    using update_exploding[of ?b20 now] by simp_all
  have "foldl (\<lambda>b now. update now b) (explode b) nows = update now ?b20"
    unfolding nows using updates_destroyed[OF b21(1)] by simp
  with b21 show "state (foldl (\<lambda>b now. update now b) (explode b) nows) = Destroyed"
    "animationFrame (foldl (\<lambda>b now. update now b) (explode b) nows) = 21"
    by simp_all
qed

theorem explode_update_frames_witness:
  "state (update 0 (explode (new_Bubble 0 0 None 20))) = Exploding
   \<and> animationFrame (update 0 (explode (new_Bubble 0 0 None 20))) = 1
   \<and> state (foldl (\<lambda>b now. update now b) (explode (new_Bubble 0 0 None 20)) (replicate 20 0)) = Exploding
   \<and> animationFrame (foldl (\<lambda>b now. update now b) (explode (new_Bubble 0 0 None 20)) (replicate 20 0)) = 20
   \<and> state (foldl (\<lambda>b now. update now b) (explode (new_Bubble 0 0 None 20)) (replicate 21 0)) = Destroyed"
  using explode_update_frames[of "explode (new_Bubble 0 0 None 20)" 0 "[0]"]
    explode_update_frames[of "new_Bubble 0 0 None 20" 0 "replicate 20 0"]
    explode_update_frames[of "new_Bubble 0 0 None 20" 0 "replicate 21 0"]
  by (simp add: explode_def)

text \<open>
  Claim C8 as first stated, with the transition after exactly 20 frames, fails: after
  exactly 20 updates from \<open>explode\<close> the bubble has not become \<open>Destroyed\<close>.
\<close>

theorem explode_update_20_counterexample:
  "state (foldl (\<lambda>b now. update now b) (explode (new_Bubble 0 0 None 20)) (replicate 20 0)) \<noteq> Destroyed"
  using updates_exploding[of "explode (new_Bubble 0 0 None 20)" "replicate 20 0"]
  by (simp add: explode_def)

section \<open>Properties of the search for connected bubbles\<close>

lemma cellsOf_simps [simp]:
  "cellsOf [] = []"
  "cellsOf ((r, k, b) # items) = (r, k) # cellsOf items"
  "cellsOf (xs @ ys) = cellsOf xs @ cellsOf ys"
  by (simp_all add: cellsOf_def)

lemma length_cellsOf [simp]: "length (cellsOf items) = length items"
  by (simp add: cellsOf_def)

lemma dfsInv_Nil: "dfsInv g c V [] V"
  by (simp add: dfsInv_def)

lemma dfsInv_append:
  assumes "dfsInv g c V xs V1" and "dfsInv g c V1 ys V2"
  shows "dfsInv g c V (xs @ ys) V2"
proof -
  from assms have V1: "V1 = V \<union> set (cellsOf xs)" and V2: "V2 = V1 \<union> set (cellsOf ys)"
    and d: "distinct (cellsOf xs)" "distinct (cellsOf ys)"
    and dj: "set (cellsOf xs) \<inter> V = {}" "set (cellsOf ys) \<inter> V1 = {}"
    and items: "\<forall>(r, k, b) \<in> set xs. getBubble g r k = Some b \<and> color b = c"
      "\<forall>(r, k, b) \<in> set ys. getBubble g r k = Some b \<and> color b = c"
    and cl: "\<forall>a \<in> set (cellsOf xs). \<forall>n \<in> set (getNeighbors g (fst a) (snd a)).
           hasColor g c n \<longrightarrow> n \<in> V1"
      "\<forall>a \<in> set (cellsOf ys). \<forall>n \<in> set (getNeighbors g (fst a) (snd a)).
           hasColor g c n \<longrightarrow> n \<in> V2"
    unfolding dfsInv_def by blast+
  have 1: "V2 = V \<union> set (cellsOf (xs @ ys))"
    using V1 V2 by auto
  have 2: "distinct (cellsOf (xs @ ys))"
    using d dj V1 by auto
  have 3: "set (cellsOf (xs @ ys)) \<inter> V = {}"
    using dj V1 by auto
  have 4: "\<forall>(r, k, b) \<in> set (xs @ ys). getBubble g r k = Some b \<and> color b = c"
    using items by auto
  have "V1 \<subseteq> V2" using V2 by auto
  with cl have 5: "\<forall>a \<in> set (cellsOf (xs @ ys)). \<forall>n \<in> set (getNeighbors g (fst a) (snd a)).
           hasColor g c n \<longrightarrow> n \<in> V2"
    by auto
  from 1 2 3 4 5 show ?thesis
    unfolding dfsInv_def by blast
qed

lemma dfsInv_Cons:
  assumes inv: "dfsInv g c (insert (row, col) V) found V'"
    and new: "(row, col) \<notin> V"
    and b: "getBubble g row col = Some b" "color b = c"
    and nb: "\<forall>n \<in> set (getNeighbors g row col). hasColor g c n \<longrightarrow> n \<in> V'"
  shows "dfsInv g c V ((row, col, b) # found) V'"
  using assms unfolding dfsInv_def by auto

lemma sameColorComponent_hasColor:
  "a \<in> sameColorComponent g c origin \<Longrightarrow> hasColor g c origin \<and> hasColor g c a"
  by (induction rule: sameColorComponent.induct) auto

lemma sameColorComponent_trans:
  assumes "a \<in> sameColorComponent g c n" and "n \<in> sameColorComponent g c origin"
  shows "a \<in> sameColorComponent g c origin"
  using assms by (induction rule: sameColorComponent.induct) (auto intro: sameColorComponent.step)

lemma findConnected_inv:
  "(case findConnectedBubbles g row col c V of (found, V') \<Rightarrow>
      dfsInv g c V found V'
      \<and> (hasColor g c (row, col) \<longrightarrow> (row, col) \<in> V')
      \<and> set (cellsOf found) \<subseteq> sameColorComponent g c (row, col))"
  "(case findConnectedLoop g c ns conn V of (res, V') \<Rightarrow>
      \<exists>found. res = conn @ found
        \<and> dfsInv g c V found V'
        \<and> (\<forall>n \<in> set ns. hasColor g c n \<longrightarrow> n \<in> V')
        \<and> set (cellsOf found) \<subseteq> (\<Union>n \<in> set ns. sameColorComponent g c n))"
proof (induction g row col c V and g c ns conn V
    rule: findConnectedBubbles_findConnectedLoop.induct)
  case (1 g row col c V)
  show ?case
  proof (cases "(row, col) \<in> V")
    case True
    then show ?thesis by (simp add: dfsInv_Nil)
  next
    case notin: False
    show ?thesis
    proof (cases "getBubble g row col")
      case None
      with notin show ?thesis by (simp add: dfsInv_Nil hasColor_def)
    next
      case (Some b)
      show ?thesis
      proof (cases "color b = c")
        case False
        with notin Some show ?thesis by (simp add: dfsInv_Nil hasColor_def)
      next
        case True
        obtain res V' where loop:
          "findConnectedLoop g c (getNeighbors g row col) [(row, col, b)] (insert (row, col) V) = (res, V')"
          by (cases "findConnectedLoop g c (getNeighbors g row col) [(row, col, b)] (insert (row, col) V)")
        from 1[OF notin Some] True loop obtain found where
          res: "res = [(row, col, b)] @ found"
          and inv: "dfsInv g c (insert (row, col) V) found V'"
          and nb: "\<forall>n \<in> set (getNeighbors g row col). hasColor g c n \<longrightarrow> n \<in> V'"
          and sub: "set (cellsOf found) \<subseteq> (\<Union>n \<in> set (getNeighbors g row col). sameColorComponent g c n)"
          by auto
        have hc: "hasColor g c (row, col)"
          using Some True by (simp add: hasColor_def)
        then have o: "(row, col) \<in> sameColorComponent g c (row, col)"
          by (rule sameColorComponent.origin)
        have inv': "dfsInv g c V ((row, col, b) # found) V'"
          using inv notin Some True nb by (rule dfsInv_Cons)
        have mem: "(row, col) \<in> V'"
          using inv by (simp add: dfsInv_def)
        have "set (cellsOf found) \<subseteq> sameColorComponent g c (row, col)"
        proof
          fix a assume "a \<in> set (cellsOf found)"
          with sub obtain n where n: "n \<in> set (getNeighbors g row col)"
            and a: "a \<in> sameColorComponent g c n" by auto
          from a have "hasColor g c n" by (simp add: sameColorComponent_hasColor)
          with o n have "n \<in> sameColorComponent g c (row, col)"
            by (auto intro: sameColorComponent.step)
          with a show "a \<in> sameColorComponent g c (row, col)"
            by (rule sameColorComponent_trans)
        qed
        with o have sub': "set (cellsOf ((row, col, b) # found)) \<subseteq> sameColorComponent g c (row, col)"
          by simp
        have "findConnectedBubbles g row col c V = ((row, col, b) # found, V')"
          using notin Some True loop res by simp
        with inv' mem sub' show ?thesis by simp
      qed
    qed
  qed
next
  case (2 g c conn V)
  then show ?case by (simp add: dfsInv_Nil)
next
  case (3 g c nRow nCol ns conn V)
  obtain found1 V1 where first: "findConnectedBubbles g nRow nCol c V = (found1, V1)"
    by (cases "findConnectedBubbles g nRow nCol c V")
  obtain res V' where rest: "findConnectedLoop g c ns (conn @ found1) V1 = (res, V')"
    by (cases "findConnectedLoop g c ns (conn @ found1) V1")
  from 3(1) first have inv1: "dfsInv g c V found1 V1"
    and in1: "hasColor g c (nRow, nCol) \<longrightarrow> (nRow, nCol) \<in> V1"
    and sub1: "set (cellsOf found1) \<subseteq> sameColorComponent g c (nRow, nCol)"
    by auto
  from 3(2)[OF first[symmetric]] rest obtain found2 where
    res: "res = (conn @ found1) @ found2"
    and inv2: "dfsInv g c V1 found2 V'"
    and in2: "\<forall>n \<in> set ns. hasColor g c n \<longrightarrow> n \<in> V'"
    and sub2: "set (cellsOf found2) \<subseteq> (\<Union>n \<in> set ns. sameColorComponent g c n)"
    by auto
  have inv: "dfsInv g c V (found1 @ found2) V'"
    using inv1 inv2 by (rule dfsInv_append)
  have "V1 \<subseteq> V'" using inv2 by (auto simp: dfsInv_def)
  with in1 in2 have ins: "\<forall>n \<in> set ((nRow, nCol) # ns). hasColor g c n \<longrightarrow> n \<in> V'"
    by auto
  have sub: "set (cellsOf (found1 @ found2))
      \<subseteq> (\<Union>n \<in> set ((nRow, nCol) # ns). sameColorComponent g c n)"
    using sub1 sub2 by auto
  have "findConnectedLoop g c ((nRow, nCol) # ns) conn V = (conn @ (found1 @ found2), V')"
    using first rest res by simp
  with inv ins sub show ?case by (simp del: findConnectedLoop.simps)
qed

lemma findConnectedLoop_no_match:
  "\<forall>n \<in> set ns. \<not> hasColor g c n \<Longrightarrow> findConnectedLoop g c ns conn V = (conn, V)"
proof (induction ns arbitrary: conn)
  case Nil
  then show ?case by simp
next
  case (Cons n ns)
  obtain nRow nCol where n: "n = (nRow, nCol)" by (cases n)
  from Cons.prems n have "findConnectedBubbles g nRow nCol c V = ([], V)"
    by (auto simp: hasColor_def split: option.splits)
  with Cons n show ?case by simp
qed

lemma component_subset_closed:
  assumes o: "origin \<in> V"
    and cl: "\<forall>a \<in> V. \<forall>n \<in> set (getNeighbors g (fst a) (snd a)). hasColor g c n \<longrightarrow> n \<in> V"
  shows "sameColorComponent g c origin \<subseteq> V"
proof
  fix a assume "a \<in> sameColorComponent g c origin"
  then show "a \<in> V"
    using o cl by (induction rule: sameColorComponent.induct) auto
qed

lemma findConnectedBubbles_cells:
  assumes "hasColor g c (row, col)"
  shows "set (cellsOf (fst (findConnectedBubbles g row col c {}))) = sameColorComponent g c (row, col)"
    and "distinct (cellsOf (fst (findConnectedBubbles g row col c {})))"
    and "\<forall>(r, k, b) \<in> set (fst (findConnectedBubbles g row col c {})). getBubble g r k = Some b \<and> color b = c"
proof -
  obtain found V' where f: "findConnectedBubbles g row col c {} = (found, V')"
    by (cases "findConnectedBubbles g row col c {}")
  from findConnected_inv(1)[where g = g and row = row and col = col and c = c and V = "{}"] f assms
  have inv: "dfsInv g c {} found V'" and o: "(row, col) \<in> V'"
    and sub: "set (cellsOf found) \<subseteq> sameColorComponent g c (row, col)"
    by auto
  from inv have V': "V' = set (cellsOf found)"
    and d: "distinct (cellsOf found)"
    and items: "\<forall>(r, k, b) \<in> set found. getBubble g r k = Some b \<and> color b = c"
    and cl: "\<forall>a \<in> set (cellsOf found). \<forall>n \<in> set (getNeighbors g (fst a) (snd a)).
           hasColor g c n \<longrightarrow> n \<in> V'"
    unfolding dfsInv_def by auto
  have "sameColorComponent g c (row, col) \<subseteq> V'"
    using o cl unfolding V' by (intro component_subset_closed) auto
  with sub V' f show "set (cellsOf (fst (findConnectedBubbles g row col c {}))) = sameColorComponent g c (row, col)"
    by auto
  from d f show "distinct (cellsOf (fst (findConnectedBubbles g row col c {})))" by simp
  from items f show "\<forall>(r, k, b) \<in> set (fst (findConnectedBubbles g row col c {})). getBubble g r k = Some b \<and> color b = c"
    by simp
qed

text \<open>
  Claim C1. Called with a fresh visited set, \<open>findConnectedBubbles\<close> returns the empty
  list when the origin cell is unoccupied (or out of range) and when its bubble has
  another colour than the one searched. Otherwise the cells of the returned entries are
  exactly the cells of the same-colour component of the origin, the origin among them,
  no cell occurs twice, and every entry carries the bubble of its cell; when no
  neighbour of the origin has the colour, the result is the origin alone.
\<close>

theorem findConnectedBubbles_component:
  "(getBubble g row col = None \<longrightarrow> fst (findConnectedBubbles g row col c {}) = [])
   \<and> (\<forall>b. getBubble g row col = Some b \<and> color b \<noteq> c \<longrightarrow>
         fst (findConnectedBubbles g row col c {}) = [])
   \<and> (\<forall>b. getBubble g row col = Some b \<and> color b = c \<longrightarrow>
         set (cellsOf (fst (findConnectedBubbles g row col c {}))) = sameColorComponent g c (row, col)
         \<and> (row, col) \<in> set (cellsOf (fst (findConnectedBubbles g row col c {})))
         \<and> distinct (cellsOf (fst (findConnectedBubbles g row col c {})))
         \<and> (\<forall>(r, k, b') \<in> set (fst (findConnectedBubbles g row col c {})).
               getBubble g r k = Some b' \<and> color b' = c)
         \<and> ((\<forall>n \<in> set (getNeighbors g row col). \<not> hasColor g c n) \<longrightarrow>
               fst (findConnectedBubbles g row col c {}) = [(row, col, b)]))"
proof (intro conjI allI impI)
  assume "getBubble g row col = None"
  then show "fst (findConnectedBubbles g row col c {}) = []" by simp
next
  fix b assume "getBubble g row col = Some b \<and> color b \<noteq> c"
  then show "fst (findConnectedBubbles g row col c {}) = []" by simp
next
  fix b assume b: "getBubble g row col = Some b \<and> color b = c"
  then have hc: "hasColor g c (row, col)" by (simp add: hasColor_def)
  note facts = findConnectedBubbles_cells[OF hc]
  show "set (cellsOf (fst (findConnectedBubbles g row col c {}))) = sameColorComponent g c (row, col)"
    by (rule facts(1))
  show "(row, col) \<in> set (cellsOf (fst (findConnectedBubbles g row col c {})))"
    unfolding facts(1) using hc by (rule sameColorComponent.origin)
  show "distinct (cellsOf (fst (findConnectedBubbles g row col c {})))"
    by (rule facts(2))
  show "\<forall>(r, k, b') \<in> set (fst (findConnectedBubbles g row col c {})).
               getBubble g r k = Some b' \<and> color b' = c"
    by (rule facts(3))
  assume "\<forall>n \<in> set (getNeighbors g row col). \<not> hasColor g c n"
  then have "findConnectedLoop g c (getNeighbors g row col) [(row, col, b)] (insert (row, col) {})
      = ([(row, col, b)], insert (row, col) {})"
    by (rule findConnectedLoop_no_match)
  with b show "fst (findConnectedBubbles g row col c {}) = [(row, col, b)]"
    by simp
qed

theorem findConnectedBubbles_witness:
  "cellsOf (fst (findConnectedBubbles exampleGrid 0 0 (Some ''#FF6B6B'') {})) = [(0, 0), (0, 1), (1, 0)]
   \<and> length (fst (findConnectedBubbles exampleGrid 0 0 (Some ''#FF6B6B'') {})) = 3
   \<and> cellsOf (fst (findConnectedBubbles exampleGrid 3 3 (Some ''#FF6B6B'') {})) = [(3, 3)]
   \<and> fst (findConnectedBubbles exampleGrid 0 0 (Some ''#4ECDC4'') {}) = []
   \<and> fst (findConnectedBubbles exampleGrid 2 2 (Some ''#FF6B6B'') {}) = []"
  using findConnectedBubbles_component[of exampleGrid 0 0 "Some ''#FF6B6B''"]
    findConnectedBubbles_component[of exampleGrid 3 3 "Some ''#FF6B6B''"]
    findConnectedBubbles_component[of exampleGrid 0 0 "Some ''#4ECDC4''"]
    findConnectedBubbles_component[of exampleGrid 2 2 "Some ''#FF6B6B''"]
  by (simp add: exampleGrid_def grid_eval)

section \<open>Properties of the elimination\<close>

lemma eliminateLoop_removes:
  assumes "distinct (cellsOf items)"
    and "\<forall>(r, k, b) \<in> set items. getBubble g r k = Some b"
  shows "eliminateLoop g items n ex =
    (g\<lparr> grid := (\<lambda>cell. if cell \<in> set (cellsOf items) then None else grid g cell) \<rparr>,
     n + int (length items),
     ex @ map (\<lambda>(r, k, b). explode b) items)"
  using assms
proof (induction items arbitrary: g n ex)
  case Nil
  then show ?case by simp
next
  case (Cons item items)
  obtain r k b where item: "item = (r, k, b)" by (cases item)
  let ?g1 = "g\<lparr> grid := (grid g)((r, k) := None) \<rparr>"
  from Cons.prems(2) item have here: "getBubble g r k = Some b" by simp
  then have valid: "isValidPosition g r k" and occ: "grid g (r, k) = Some b"
    by (simp_all add: getBubble_def split: if_splits)
  then have rem: "removeBubble g r k = (Some b, ?g1)"
    by (simp add: removeBubble_def)
  from Cons.prems(1) item have d: "distinct (cellsOf items)" and notin: "(r, k) \<notin> set (cellsOf items)"
    by simp_all
  have rest: "\<forall>(r', k', b') \<in> set items. getBubble ?g1 r' k' = Some b'"
  proof (clarify)
    fix r' k' b' assume m: "(r', k', b') \<in> set items"
    then have "(r', k') \<in> set (cellsOf items)" by (force simp: cellsOf_def)
    with notin have "(r', k') \<noteq> (r, k)" by auto
    moreover from Cons.prems(2) m have "getBubble g r' k' = Some b'" by auto
    ultimately show "getBubble ?g1 r' k' = Some b'"
      by (auto simp: getBubble_def isValidPosition_def split: if_splits)
  qed
  have "eliminateLoop g (item # items) n ex = eliminateLoop ?g1 items (n + 1) (ex @ [explode b])"
    using item rem by simp
  also have "\<dots> =
    (?g1\<lparr> grid := (\<lambda>cell. if cell \<in> set (cellsOf items) then None else grid ?g1 cell) \<rparr>,
     n + 1 + int (length items),
     (ex @ [explode b]) @ map (\<lambda>(r, k, b). explode b) items)"
    by (rule Cons.IH[OF d rest])
  also have "\<dots> =
    (g\<lparr> grid := (\<lambda>cell. if cell \<in> set (cellsOf (item # items)) then None else grid g cell) \<rparr>,
     n + int (length (item # items)),
     ex @ map (\<lambda>(r, k, b). explode b) (item # items))"
    using item by (auto simp: fun_eq_iff)
  finally show ?case .
qed

lemma state_explode: "state (explode b) = Exploding"
  by (simp add: explode_def)

text \<open>
  Claim C2. Let the cell \<open>(row, col)\<close> hold a bubble and let \<open>conn\<close> be what
  \<open>findConnectedBubbles\<close> returns for that cell and the colour of its bubble: the cells
  of the same-colour component of the cell, each once. If \<open>conn\<close> has \<open>N \<ge> 3\<close>
  entries, \<open>checkElimination\<close> empties exactly those cells of the grid and leaves every
  other cell as it was, calls \<open>explode\<close> on each of the \<open>N\<close> bubbles taken out (they
  are in state \<open>Exploding\<close>) and adds \<open>10 N\<close> to the score. If \<open>N < 3\<close>, the game,
  so its grid and its score, is unchanged and no bubble explodes.
\<close>

theorem checkElimination_removes_component:
  assumes "getBubble (bubbleGrid gm) row col = Some b"
  shows "(let conn = fst (findConnectedBubbles (bubbleGrid gm) row col (color b) {});
              gm' = fst (checkElimination gm row col);
              exploded = snd (checkElimination gm row col)
          in set (cellsOf conn) = sameColorComponent (bubbleGrid gm) (color b) (row, col)
             \<and> distinct (cellsOf conn)
             \<and> (length conn \<ge> 3 \<longrightarrow>
                  (\<forall>r k. getBubble (bubbleGrid gm') r k =
                     (if (r, k) \<in> set (cellsOf conn) then None else getBubble (bubbleGrid gm) r k))
                  \<and> exploded = map (\<lambda>(r, k, b). explode b) conn
                  \<and> (\<forall>e \<in> set exploded. state e = Exploding)
                  \<and> score gm' = score gm + 10 * int (length conn))
             \<and> (length conn < 3 \<longrightarrow> gm' = gm \<and> exploded = []))"
proof -
  let ?g = "bubbleGrid gm"
  let ?conn = "fst (findConnectedBubbles ?g row col (color b) {})"
  have hc: "hasColor ?g (color b) (row, col)"
    using assms by (simp add: hasColor_def)
  note facts = findConnectedBubbles_cells[OF hc]
  from facts(3) have items: "\<forall>(r, k, b) \<in> set ?conn. getBubble ?g r k = Some b"
    by auto
  note loop = eliminateLoop_removes[OF facts(2) items, of 0 "[]"]
  let ?g1 = "?g\<lparr> grid := (\<lambda>cell. if cell \<in> set (cellsOf ?conn) then None else grid ?g cell) \<rparr>"
  have small: "checkElimination gm row col = (gm, [])" if "length ?conn < 3"
    using that assms by (simp add: checkElimination_def Let_def)
  have big: "checkElimination gm row col =
      (updateScore (gm\<lparr> bubbleGrid := ?g1, score := score gm + int (length ?conn) * 10 \<rparr>),
       map (\<lambda>(r, k, b). explode b) ?conn)" if "length ?conn \<ge> 3"
    using that assms loop by (simp add: checkElimination_def Let_def)
  have cells: "getBubble ?g1 r k = (if (r, k) \<in> set (cellsOf ?conn) then None else getBubble ?g r k)"
    for r k
    by (simp add: getBubble_def isValidPosition_def)
  have ex: "\<forall>e \<in> set (map (\<lambda>(r, k, b). explode b) ?conn). state e = Exploding"
    by (auto simp: state_explode)
  show ?thesis
    unfolding Let_def
  proof (intro conjI impI)
    show "set (cellsOf ?conn) = sameColorComponent ?g (color b) (row, col)" by (rule facts(1))
    show "distinct (cellsOf ?conn)" by (rule facts(2))
  next
    assume n: "3 \<le> length ?conn"
    show "\<forall>r k. getBubble (bubbleGrid (fst (checkElimination gm row col))) r k =
        (if (r, k) \<in> set (cellsOf ?conn) then None else getBubble ?g r k)"
      unfolding big[OF n] using cells by (simp add: updateScore_def)
    show "snd (checkElimination gm row col) = map (\<lambda>(r, k, b). explode b) ?conn"
      unfolding big[OF n] by simp
    show "\<forall>e \<in> set (snd (checkElimination gm row col)). state e = Exploding"
      unfolding big[OF n] using ex by simp
    show "score (fst (checkElimination gm row col)) = score gm + 10 * int (length ?conn)"
      unfolding big[OF n] by (simp add: updateScore_def)
  next
    assume n: "length ?conn < 3"
    show "fst (checkElimination gm row col) = gm" "snd (checkElimination gm row col) = []"
      unfolding small[OF n] by simp_all
  qed
qed

theorem checkElimination_witness:
  "cellsOf (fst (findConnectedBubbles exampleGrid 0 0 (Some ''#FF6B6B'') {})) = [(0, 0), (0, 1), (1, 0)]
   \<and> score (fst (checkElimination exampleGame 0 0)) = 30
   \<and> map state (snd (checkElimination exampleGame 0 0)) = [Exploding, Exploding, Exploding]
   \<and> getBubble (bubbleGrid (fst (checkElimination exampleGame 0 0))) 0 0 = None
   \<and> getBubble (bubbleGrid (fst (checkElimination exampleGame 0 0))) 0 1 = None
   \<and> getBubble (bubbleGrid (fst (checkElimination exampleGame 0 0))) 1 0 = None
   \<and> getBubble (bubbleGrid (fst (checkElimination exampleGame 0 0))) 0 3 = getBubble exampleGrid 0 3
   \<and> checkElimination exampleGame 3 3 = (exampleGame, [])"
  using checkElimination_removes_component[of exampleGame 0 0 "the (getBubble exampleGrid 0 0)"]
    checkElimination_removes_component[of exampleGame 3 3 "the (getBubble exampleGrid 3 3)"]
  by (simp add: exampleGame_def checkElimination_def updateScore_def explode_def exampleGrid_def grid_eval)

section \<open>Properties of the landing cell\<close>

lemma scanUpward_col: "snd (scanUpward g r col) = col"
  by (induction g r col rule: scanUpward.induct) (subst scanUpward.simps, simp)

lemma scanUpward_full:
  "\<forall>r'. 0 \<le> r' \<and> r' \<le> r \<longrightarrow> getBubble g r' col \<noteq> None \<Longrightarrow> scanUpward g r col = (0, col)"
proof (induction g r col rule: scanUpward.induct)
  case (1 g r col)
  show ?case
  proof (cases "r \<ge> 0")
    case True
    with 1 show ?thesis by (subst scanUpward.simps) auto
  next
    case False
    then show ?thesis by (subst scanUpward.simps) simp
  qed
qed

lemma scanUpward_free:
  "\<exists>r'. 0 \<le> r' \<and> r' \<le> r \<and> getBubble g r' col = None \<Longrightarrow>
     0 \<le> fst (scanUpward g r col) \<and> fst (scanUpward g r col) \<le> r
     \<and> getBubble g (fst (scanUpward g r col)) col = None
     \<and> (\<forall>r'. fst (scanUpward g r col) < r' \<and> r' \<le> r \<longrightarrow> getBubble g r' col \<noteq> None)"
proof (induction g r col rule: scanUpward.induct)
  case (1 g r col)
  from 1(2) have r0: "0 \<le> r" by auto
  show ?case
  proof (cases "getBubble g r col = None")
    case True
    with r0 have "scanUpward g r col = (r, col)" by (subst scanUpward.simps) simp
    with True r0 show ?thesis by auto
  next
    case False
    with r0 have eq: "scanUpward g r col = scanUpward g (r - 1) col"
      by (subst scanUpward.simps) auto
    from 1(2) obtain r' where r': "0 \<le> r'" "r' \<le> r" "getBubble g r' col = None"
      by blast
    with False have "r' \<noteq> r" by auto
    with r' have "\<exists>r'. 0 \<le> r' \<and> r' \<le> r - 1 \<and> getBubble g r' col = None"
      by (intro exI[of _ r']) auto
    from 1(1)[OF r0 False this] have ih:
      "0 \<le> fst (scanUpward g (r - 1) col)" "fst (scanUpward g (r - 1) col) \<le> r - 1"
      "getBubble g (fst (scanUpward g (r - 1) col)) col = None"
      "\<forall>r'. fst (scanUpward g (r - 1) col) < r' \<and> r' \<le> r - 1 \<longrightarrow> getBubble g r' col \<noteq> None"
      by auto
    have "\<forall>r'. fst (scanUpward g (r - 1) col) < r' \<and> r' \<le> r \<longrightarrow> getBubble g r' col \<noteq> None"
    proof (intro allI impI)
      fix r' assume a: "fst (scanUpward g (r - 1) col) < r' \<and> r' \<le> r"
      show "getBubble g r' col \<noteq> None"
      proof (cases "r' = r")
        case True
        with False show ?thesis by simp
      next
        case False
        with a ih(4) show ?thesis by auto
      qed
    qed
    with ih show ?thesis unfolding eq by auto
  qed
qed

text \<open>
  Claim C5. On a grid with at least one row and one column, \<open>findNearestEmptyPosition\<close>
  takes the cell that \<open>getGridPosition\<close> gives for the pixel point and clamps its row
  and column into the grid. It returns that cell when it is free. Otherwise it stays in
  the same column and returns the first free cell met going up from that row, that is,
  the free cell with the greatest row at or above it; when no cell from that row up to
  row 0 is free (so in particular when the whole column is full) it returns row 0 of the
  column. The cell returned is always within the bounds of the grid.
\<close>

theorem findNearestEmptyPosition_scans_upward:
  assumes "0 < rows g" and "0 < cols g"
  shows "(let gridPos = getGridPosition px py;
              row = max 0 (min (rows g - 1) (fst gridPos));
              col = max 0 (min (cols g - 1) (snd gridPos));
              res = findNearestEmptyPosition g px py
          in isValidPosition g row col
             \<and> isValidPosition g (fst res) (snd res) \<and> snd res = col \<and> fst res \<le> row
             \<and> (getBubble g row col = None \<longrightarrow> res = (row, col))
             \<and> ((\<exists>r. 0 \<le> r \<and> r \<le> row \<and> getBubble g r col = None) \<longrightarrow>
                  getBubble g (fst res) col = None
                  \<and> (\<forall>r. fst res < r \<and> r \<le> row \<longrightarrow> getBubble g r col \<noteq> None))
             \<and> ((\<forall>r. 0 \<le> r \<and> r \<le> row \<longrightarrow> getBubble g r col \<noteq> None) \<longrightarrow> res = (0, col)))"
proof -
  define row where "row = max 0 (min (rows g - 1) (fst (getGridPosition px py)))"
  define col where "col = max 0 (min (cols g - 1) (snd (getGridPosition px py)))"
  define res where "res = findNearestEmptyPosition g px py"
  have valid: "isValidPosition g row col"
    using assms by (auto simp: isValidPosition_def row_def col_def)
  have res: "res = (if getBubble g row col = None then (row, col) else scanUpward g row col)"
    by (simp add: res_def findNearestEmptyPosition_def row_def col_def Let_def)
  have c: "snd res = col"
    by (simp add: res scanUpward_col)
  have free: "getBubble g (fst res) col = None
      \<and> (\<forall>r. fst res < r \<and> r \<le> row \<longrightarrow> getBubble g r col \<noteq> None) \<and> 0 \<le> fst res \<and> fst res \<le> row"
    if "\<exists>r. 0 \<le> r \<and> r \<le> row \<and> getBubble g r col = None"
  proof (cases "getBubble g row col = None")
    case True
    then show ?thesis using valid by (auto simp: res isValidPosition_def)
  next
    case False
    then show ?thesis using scanUpward_free[OF that] by (simp add: res)
  qed
  have full: "res = (0, col)" if "\<forall>r. 0 \<le> r \<and> r \<le> row \<longrightarrow> getBubble g r col \<noteq> None"
  proof -
    from that valid have "getBubble g row col \<noteq> None"
      by (simp add: isValidPosition_def)
    with that show ?thesis by (auto simp: res scanUpward_full)
  qed
  have bounds: "0 \<le> fst res \<and> fst res \<le> row"
  proof (cases "\<exists>r. 0 \<le> r \<and> r \<le> row \<and> getBubble g r col = None")
    case True
    then show ?thesis using free by simp
  next
    case False
    then have "\<forall>r. 0 \<le> r \<and> r \<le> row \<longrightarrow> getBubble g r col \<noteq> None" by simp
    then have "res = (0, col)" by (rule full)
    then show ?thesis using valid by (simp add: isValidPosition_def)
  qed
  have valid': "isValidPosition g (fst res) (snd res)"
    using bounds valid c by (simp add: isValidPosition_def)
  have here: "res = (row, col)" if "getBubble g row col = None"
    using that by (simp add: res)
  show ?thesis
    unfolding Let_def row_def[symmetric] col_def[symmetric] res_def[symmetric]
  proof (intro conjI impI)
    show "isValidPosition g row col" by (rule valid)
    show "isValidPosition g (fst res) (snd res)" by (rule valid')
    show "snd res = col" by (rule c)
    show "fst res \<le> row" using bounds by simp
    show "res = (row, col)" if "getBubble g row col = None" using that by (rule here)
    show "getBubble g (fst res) col = None"
      if "\<exists>r. 0 \<le> r \<and> r \<le> row \<and> getBubble g r col = None"
      using free[OF that] by simp
    show "\<forall>r. fst res < r \<and> r \<le> row \<longrightarrow> getBubble g r col \<noteq> None"
      if "\<exists>r. 0 \<le> r \<and> r \<le> row \<and> getBubble g r col = None"
      using free[OF that] by simp
    show "res = (0, col)" if "\<forall>r. 0 \<le> r \<and> r \<le> row \<longrightarrow> getBubble g r col \<noteq> None"
      using that by (rule full)
  qed
qed

theorem findNearestEmptyPosition_witness:
  "0 < rows exampleGrid \<and> 0 < cols exampleGrid
   \<and> getBubble exampleGrid 0 2 = None
   \<and> findNearestEmptyPosition exampleGrid 130 50 = (0, 2)
   \<and> getBubble exampleGrid 3 3 \<noteq> None \<and> getBubble exampleGrid 2 3 = None
   \<and> findNearestEmptyPosition exampleGrid 190 (50 + 60 * sqrt 3) = (2, 3)
   \<and> getBubble exampleGrid 1 0 \<noteq> None \<and> getBubble exampleGrid 0 0 \<noteq> None
   \<and> findNearestEmptyPosition exampleGrid 70 (50 + 20 * sqrt 3) = (0, 0)"
proof -
  have size: "0 < rows exampleGrid" "0 < cols exampleGrid"
    by (simp_all add: exampleGrid_def grid_eval)
  have cells: "getBubble exampleGrid 0 2 = None" "getBubble exampleGrid 3 3 \<noteq> None"
    "getBubble exampleGrid 2 3 = None" "getBubble exampleGrid 1 0 \<noteq> None"
    "getBubble exampleGrid 0 0 \<noteq> None"
    by (simp_all add: exampleGrid_def grid_eval)
  have pos: "getGridPosition 130 50 = (0, 2)" "getGridPosition 190 (50 + 60 * sqrt 3) = (3, 3)"
    "getGridPosition 70 (50 + 20 * sqrt 3) = (1, 0)"
    by (simp_all add: pixel_eval js_rem_def Let_def)
  have clamp: "max 0 (min (rows exampleGrid - 1) 0) = 0" "max 0 (min (cols exampleGrid - 1) 2) = 2"
    "max 0 (min (rows exampleGrid - 1) 3) = 3" "max 0 (min (cols exampleGrid - 1) 3) = 3"
    "max 0 (min (rows exampleGrid - 1) 1) = 1" "max 0 (min (cols exampleGrid - 1) 0) = 0"
    by (simp_all add: exampleGrid_def grid_eval)
  have a: "findNearestEmptyPosition exampleGrid 130 50 = (0, 2)"
    using findNearestEmptyPosition_scans_upward[OF size, of 130 50] cells
    by (simp add: Let_def pos clamp)
  have "\<exists>r. 0 \<le> r \<and> r \<le> 3 \<and> getBubble exampleGrid r 3 = None"
    using cells(3) by (intro exI[of _ 2]) simp
  then have "getBubble exampleGrid (fst (findNearestEmptyPosition exampleGrid 190 (50 + 60 * sqrt 3))) 3 = None"
    using findNearestEmptyPosition_scans_upward[OF size, of 190 "50 + 60 * sqrt 3"]
    by (simp add: Let_def pos clamp)
  have b: "findNearestEmptyPosition exampleGrid 190 (50 + 60 * sqrt 3) = (2, 3)"
    by (simp add: findNearestEmptyPosition_def pos scanUpward.simps exampleGrid_def grid_eval)
  have "\<forall>r. 0 \<le> r \<and> r \<le> 1 \<longrightarrow> getBubble exampleGrid r 0 \<noteq> None"
  proof (intro allI impI)
    fix r :: int assume "0 \<le> r \<and> r \<le> 1"
    then have "r = 0 \<or> r = 1" by auto
    with cells show "getBubble exampleGrid r 0 \<noteq> None" by auto
  qed
  then have c: "findNearestEmptyPosition exampleGrid 70 (50 + 20 * sqrt 3) = (0, 0)"
    using findNearestEmptyPosition_scans_upward[OF size, of 70 "50 + 20 * sqrt 3"]
    by (simp add: Let_def pos clamp)
  from size cells a b c show ?thesis by simp
qed

text \<open>
  Claim C10. \<open>addBubble\<close> on a cell within bounds that is already occupied returns
  \<open>true\<close> and stores the new bubble in the cell, moved to the centre of the cell, with
  the cell's coordinates, at rest; every other cell is unchanged, and the call gives
  back nothing but the boolean, so the bubble that was in the cell is in the grid no
  more and has not been touched. \<open>attachBubbleToGrid\<close> does this whenever the clamped
  cell of the bubble and every cell above it in its column are occupied:
  \<open>findNearestEmptyPosition\<close> then answers row 0 of the column, which is occupied, and
  the bubble is added there.
\<close>

theorem addBubble_overwrites_occupied_cell:
  "(\<forall>old. isValidPosition g row col \<and> getBubble g row col = Some old \<longrightarrow>
      addBubble g row col p =
        (True,
         g\<lparr> grid := (grid g)((row, col) \<mapsto>
              p\<lparr> bubble_x := fst (getPosition row col), bubble_y := snd (getPosition row col),
                 gridRow := row, gridCol := col, state := Static, vx := 0, vy := 0 \<rparr>) \<rparr>)
      \<and> (\<forall>r k. (r, k) \<noteq> (row, col) \<longrightarrow>
            getBubble (snd (addBubble g row col p)) r k = getBubble g r k))
   \<and> (let gridPos = getGridPosition (bubble_x p) (bubble_y p);
            row0 = max 0 (min (rows (bubbleGrid gm) - 1) (fst gridPos));
            col0 = max 0 (min (cols (bubbleGrid gm) - 1) (snd gridPos))
        in (\<forall>r. 0 \<le> r \<and> r \<le> row0 \<longrightarrow> getBubble (bubbleGrid gm) r col0 \<noteq> None) \<longrightarrow>
             findNearestEmptyPosition (bubbleGrid gm) (bubble_x p) (bubble_y p) = (0, col0)
             \<and> getBubble (bubbleGrid gm) 0 col0 \<noteq> None
             \<and> attachBubbleToGrid gm p =
                 checkElimination (gm\<lparr> bubbleGrid := snd (addBubble (bubbleGrid gm) 0 col0 p) \<rparr>) 0 col0)"
proof (intro conjI allI impI)
  fix old assume a: "isValidPosition g row col \<and> getBubble g row col = Some old"
  then show "addBubble g row col p =
        (True,
         g\<lparr> grid := (grid g)((row, col) \<mapsto>
              p\<lparr> bubble_x := fst (getPosition row col), bubble_y := snd (getPosition row col),
                 gridRow := row, gridCol := col, state := Static, vx := 0, vy := 0 \<rparr>) \<rparr>)"
    by (simp add: addBubble_def Let_def stop_def setGridPosition_def)
  fix r k assume "(r, k) \<noteq> (row, col)"
  with a show "getBubble (snd (addBubble g row col p)) r k = getBubble g r k"
    by (auto simp: addBubble_def Let_def getBubble_def isValidPosition_def)
next
  define row0 where "row0 = max 0 (min (rows (bubbleGrid gm) - 1) (fst (getGridPosition (bubble_x p) (bubble_y p))))"
  define col0 where "col0 = max 0 (min (cols (bubbleGrid gm) - 1) (snd (getGridPosition (bubble_x p) (bubble_y p))))"
  have "findNearestEmptyPosition (bubbleGrid gm) (bubble_x p) (bubble_y p) = (0, col0)
      \<and> getBubble (bubbleGrid gm) 0 col0 \<noteq> None
      \<and> attachBubbleToGrid gm p =
          checkElimination (gm\<lparr> bubbleGrid := snd (addBubble (bubbleGrid gm) 0 col0 p) \<rparr>) 0 col0"
    if full: "\<forall>r. 0 \<le> r \<and> r \<le> row0 \<longrightarrow> getBubble (bubbleGrid gm) r col0 \<noteq> None"
  proof -
    have "0 \<le> row0" by (simp add: row0_def)
    with full have top: "getBubble (bubbleGrid gm) 0 col0 \<noteq> None"
      and here: "getBubble (bubbleGrid gm) row0 col0 \<noteq> None" by auto
    from here full have pos: "findNearestEmptyPosition (bubbleGrid gm) (bubble_x p) (bubble_y p) = (0, col0)"
      by (auto simp: findNearestEmptyPosition_def Let_def row0_def[symmetric] col0_def[symmetric]
          scanUpward_full)
    from top have "isValidPosition (bubbleGrid gm) 0 col0"
      by (auto simp: getBubble_def split: if_splits)
    then have "fst (addBubble (bubbleGrid gm) 0 col0 p) = True"
      by (simp add: addBubble_def Let_def)
    then have "attachBubbleToGrid gm p =
          checkElimination (gm\<lparr> bubbleGrid := snd (addBubble (bubbleGrid gm) 0 col0 p) \<rparr>) 0 col0"
      by (cases "addBubble (bubbleGrid gm) 0 col0 p") (simp add: attachBubbleToGrid_def pos)
    with pos top show ?thesis by simp
  qed
  then show "(let gridPos = getGridPosition (bubble_x p) (bubble_y p);
            row0 = max 0 (min (rows (bubbleGrid gm) - 1) (fst gridPos));
            col0 = max 0 (min (cols (bubbleGrid gm) - 1) (snd gridPos))
        in (\<forall>r. 0 \<le> r \<and> r \<le> row0 \<longrightarrow> getBubble (bubbleGrid gm) r col0 \<noteq> None) \<longrightarrow>
             findNearestEmptyPosition (bubbleGrid gm) (bubble_x p) (bubble_y p) = (0, col0)
             \<and> getBubble (bubbleGrid gm) 0 col0 \<noteq> None
             \<and> attachBubbleToGrid gm p =
                 checkElimination (gm\<lparr> bubbleGrid := snd (addBubble (bubbleGrid gm) 0 col0 p) \<rparr>) 0 col0)"
    unfolding Let_def row0_def col0_def by simp
qed

lemma sqrt3_lower: "8 / 5 < sqrt 3"
proof -
  have "(8 / 5 :: real) = sqrt ((8 / 5)\<^sup>2)" by simp
  also have "\<dots> < sqrt 3" by (subst real_sqrt_less_iff) (simp add: power2_eq_square)
  finally show ?thesis .
qed

lemma flying_cell: "getGridPosition 68 66 = (0, 0)"
proof -
  have "16 / (20 * sqrt 3) < 1 / 2"
    using sqrt3_lower by (simp add: field_simps)
  then have hi: "16 / (20 * sqrt 3) + 1 / 2 < 1" by linarith
  have "0 \<le> 16 / (20 * sqrt 3)" by simp
  then have lo: "0 \<le> 16 / (20 * sqrt 3) + 1 / 2" by linarith
  from lo hi have "\<lfloor>16 / (20 * sqrt 3) + 1 / 2\<rfloor> = 0"
    unfolding floor_eq_iff by simp
  then have "math_round ((66 - startY) / hexOffsetY) = 0"
    by (simp add: math_round_def startY_def hexOffsetY_def bubbleRadius_def)
  moreover have "math_round ((68 - startX - 0) / hexOffsetX) = 0"
    by (simp add: math_round_def startX_def hexOffsetX_def bubbleRadius_def)
  ultimately show ?thesis
    by (simp add: getGridPosition_def Let_def js_rem_def)
qed

theorem attachBubbleToGrid_witness:
  "map_option color (getBubble (bubbleGrid loneGame) 0 0) = Some (Some ''#FF6B6B'')
   \<and> collidesWith flyingBubble (the (getBubble (bubbleGrid loneGame) 0 0))
   \<and> findNearestEmptyPosition (bubbleGrid loneGame) (bubble_x flyingBubble) (bubble_y flyingBubble) = (0, 0)
   \<and> fst (addBubble (bubbleGrid loneGame) 0 0 flyingBubble) = True
   \<and> map_option color (getBubble (bubbleGrid (fst (attachBubbleToGrid loneGame flyingBubble))) 0 0)
       = Some (Some ''#FFB347'')
   \<and> snd (attachBubbleToGrid loneGame flyingBubble) = []
   \<and> score (fst (attachBubbleToGrid loneGame flyingBubble)) = 0"
proof -
  have old: "map_option color (getBubble (bubbleGrid loneGame) 0 0) = Some (Some ''#FF6B6B'')"
    by (simp add: loneGame_def grid_eval)
  have "sqrt (18 * 18 + 16 * 16) < sqrt (35\<^sup>2 :: real)"
    by (subst real_sqrt_less_iff) simp
  then have hit: "collidesWith flyingBubble (the (getBubble (bubbleGrid loneGame) 0 0))"
    by (simp add: collidesWith_def flyingBubble_def loneGame_def grid_eval getPosition_def
        startX_def startY_def)
  have cell: "getGridPosition (bubble_x flyingBubble) (bubble_y flyingBubble) = (0, 0)"
    using flying_cell by (simp add: flyingBubble_def new_Bubble_def)
  have size: "rows (bubbleGrid loneGame) = 10" "cols (bubbleGrid loneGame) = 16"
    by (simp_all add: loneGame_def grid_eval)
  have full: "\<forall>r. 0 \<le> r \<and> r \<le> 0 \<longrightarrow> getBubble (bubbleGrid loneGame) r 0 \<noteq> None"
  proof (intro allI impI)
    fix r :: int assume "0 \<le> r \<and> r \<le> 0"
    then have "r = 0" by simp
    with old show "getBubble (bubbleGrid loneGame) r 0 \<noteq> None" by auto
  qed
  note inst = addBubble_overwrites_occupied_cell[of "bubbleGrid loneGame" 0 0 flyingBubble loneGame]
  from inst full have pos:
    "findNearestEmptyPosition (bubbleGrid loneGame) (bubble_x flyingBubble) (bubble_y flyingBubble) = (0, 0)"
    and att: "attachBubbleToGrid loneGame flyingBubble =
      checkElimination (loneGame\<lparr> bubbleGrid := snd (addBubble (bubbleGrid loneGame) 0 0 flyingBubble) \<rparr>) 0 0"
    by (simp_all add: Let_def cell size)
  have add: "fst (addBubble (bubbleGrid loneGame) 0 0 flyingBubble) = True"
    by (simp add: loneGame_def grid_eval)
  have new: "map_option color (getBubble (bubbleGrid (fst (attachBubbleToGrid loneGame flyingBubble))) 0 0)
       = Some (Some ''#FFB347'')"
    and none: "snd (attachBubbleToGrid loneGame flyingBubble) = []"
    and sc: "score (fst (attachBubbleToGrid loneGame flyingBubble)) = 0"
    unfolding att
    by (simp_all add: checkElimination_def loneGame_def flyingBubble_def grid_eval)
  from old hit pos add new none sc show ?thesis by simp
qed

end
